theory Spec2Isabelle
  imports Main
begin

section \<open>The upgrade scenarios of \<^verbatim>\<open>materialize/checks/scenarios_upgrade.py\<close>\<close>

subsection \<open>Data\<close>

text \<open>
  The module builds lists of action objects. Every element of such a list is one
  constructor call; the datatype has one constructor per class the module calls, with
  the arguments the call sites pass:
  \<^item> \<^verbatim>\<open>StartMz(tag=..., environment_extra=...)\<close>: the tag is a Python \<^verbatim>\<open>Optional[str]\<close>
    (\<open>None\<close> is Python's \<^verbatim>\<open>None\<close>, the build under test); the second argument is
    \<open>Some env\<close> when the call passes \<^verbatim>\<open>environment_extra=env\<close> and \<open>None\<close> when the call
    leaves the keyword out (\<^verbatim>\<open>StartMz(tag=None)\<close>);
  \<^item> \<^verbatim>\<open>StartComputed(tag=...)\<close>: the tag only, no call passes anything else;
  \<^item> \<^verbatim>\<open>Initialize(checks)\<close>, \<^verbatim>\<open>Manipulate(checks, phase=n)\<close>, \<^verbatim>\<open>Validate(checks)\<close>: the
    checks object of the scenario (opaque here, the type parameter \<open>'c\<close>) and a Python int;
  \<^item> \<^verbatim>\<open>Sleep(10)\<close>: a Python int;
  \<^item> \<^verbatim>\<open>UseComputed()\<close>, \<^verbatim>\<open>KillMz()\<close>, \<^verbatim>\<open>KillComputed()\<close>: no argument.

  The classes themselves live in \<^verbatim>\<open>materialize.checks.actions\<close> and
  \<^verbatim>\<open>materialize.checks.mzcompose_actions\<close>; a call is the value it builds.
\<close>

datatype 'c Action =
    StartMz "string option" "string list option"
  | StartComputed "string option"
  | UseComputed
  | KillMz
  | KillComputed
  | Initialize 'c
  | Manipulate 'c int
  | Sleep int
  | Validate 'c

datatype py_error = IndexError

text \<open>
  The module-level names (lines 32 to 39 of the source). They are computed once, when the
  module is imported, from two values of modules that are not part of this file:
  \<^verbatim>\<open>util.released_materialize_versions()\<close> and \<^verbatim>\<open>Materialized.Size.DEFAULT_SIZE\<close>.
\<close>

record module_globals =
  LAST_RELEASED_VERSION :: string
  size' :: string
  environment_extra :: "string list"

text \<open>
  The state a call of \<^verbatim>\<open>actions\<close> can see: the module's globals and the attribute
  \<^verbatim>\<open>self.checks\<close> of the scenario instance.
\<close>

record 'c state =
  globals :: module_globals
  checks :: 'c

subsection \<open>Importing the module\<close>

text \<open>
  \<^verbatim>\<open>LAST_RELEASED_VERSION = f"v{util.released_materialize_versions()[0]}"\<close> indexes a list:
  on an empty list Python raises \<^verbatim>\<open>IndexError\<close> and the import fails. The two parameters are
  the list of released versions, each as the f-string renders it, and the rendering of
  \<^verbatim>\<open>Materialized.Size.DEFAULT_SIZE\<close>. In an f-string \<^verbatim>\<open>{{\<close> and \<^verbatim>\<open>}}\<close> are literal braces.
\<close>

definition import_module :: "string list \<Rightarrow> string \<Rightarrow> py_error + module_globals" where
  \<open>import_module released_materialize_versions default_size =
     (case released_materialize_versions of
        [] \<Rightarrow> Inl IndexError
      | v # _ \<Rightarrow>
          Inr \<lparr> LAST_RELEASED_VERSION = ''v'' @ v,
                size' = default_size,
                environment_extra =
                  [ ''MZ_STORAGE_HOST_SIZES={"'' @ default_size @ ''":{"workers":'' @ default_size @ ''}}'',
                    ''MZ_CLUSTER_REPLICA_SIZES={"1":{"workers":1,"scale":1},"'' @ default_size @ ''-''
                      @ default_size @ ''":{"workers":'' @ default_size @ '',"scale":'' @ default_size
                      @ ''}}'' ] \<rparr>)\<close>

subsection \<open>The three scenarios\<close>

text \<open>
  Each \<^verbatim>\<open>actions\<close> method is a single \<^verbatim>\<open>return\<close> of a list display. It reads the globals
  and \<^verbatim>\<open>self.checks\<close> and assigns to nothing, so the state it returns is the state it was
  given. The result is the pair of the returned list and the state after the call.
\<close>

definition UpgradeEntireMz_actions :: "'c state \<Rightarrow> 'c Action list \<times> 'c state" where
  "UpgradeEntireMz_actions s =
     ([ StartMz (Some (LAST_RELEASED_VERSION (globals s))) (Some (environment_extra (globals s))),
        Initialize (checks s),
        Manipulate (checks s) 1,
        KillMz,
        StartMz None None,
        Manipulate (checks s) 2,
        Validate (checks s) ], s)"

definition UpgradeComputedLast_actions :: "'c state \<Rightarrow> 'c Action list \<times> 'c state" where
  "UpgradeComputedLast_actions s =
     ([ StartMz (Some (LAST_RELEASED_VERSION (globals s))) (Some (environment_extra (globals s))),
        StartComputed (Some (LAST_RELEASED_VERSION (globals s))),
        UseComputed,
        Initialize (checks s),
        Manipulate (checks s) 1,
        KillMz,
        StartMz None None,
        Sleep 10,
        KillComputed,
        StartComputed None,
        Manipulate (checks s) 2,
        Validate (checks s) ], s)"

definition UpgradeComputedFirst_actions :: "'c state \<Rightarrow> 'c Action list \<times> 'c state" where
  "UpgradeComputedFirst_actions s =
     ([ StartMz (Some (LAST_RELEASED_VERSION (globals s))) (Some (environment_extra (globals s))),
        StartComputed (Some (LAST_RELEASED_VERSION (globals s))),
        UseComputed,
        Initialize (checks s),
        Manipulate (checks s) 1,
        KillComputed,
        StartComputed None,
        Sleep 10,
        KillMz,
        StartMz None None,
        Manipulate (checks s) 2,
        Validate (checks s) ], s)"

subsection \<open>Vocabulary for the properties\<close>

text \<open>
  The lifecycle actions have two targets: \<open>Mz\<close>, the container of the coordinator roles
  (environmentd and storaged, started by \<^verbatim>\<open>StartMz\<close> and stopped by \<^verbatim>\<open>KillMz\<close>), and
  \<open>Computed\<close>, the worker (started by \<^verbatim>\<open>StartComputed\<close> and stopped by \<^verbatim>\<open>KillComputed\<close>).
\<close>

datatype component = Mz | Computed

fun started :: "'c Action \<Rightarrow> (component \<times> string option) option" where
  "started (StartMz tag _) = Some (Mz, tag)"
| "started (StartComputed tag) = Some (Computed, tag)"
| "started _ = None"

fun killed :: "'c Action \<Rightarrow> component option" where
  "killed KillMz = Some Mz"
| "killed KillComputed = Some Computed"
| "killed _ = None"

definition starts :: "component \<Rightarrow> 'c Action \<Rightarrow> bool" where
  "starts c a = (case started a of Some (c', _) \<Rightarrow> c' = c | None \<Rightarrow> False)"

definition kills :: "component \<Rightarrow> 'c Action \<Rightarrow> bool" where
  "kills c a = (killed a = Some c)"

text \<open>The actions that kill a component and that start it at the version under test.\<close>

fun kill_of :: "component \<Rightarrow> 'c Action" where
  "kill_of Mz = KillMz"
| "kill_of Computed = KillComputed"

fun restart_of :: "component \<Rightarrow> 'c Action" where
  "restart_of Mz = StartMz None None"
| "restart_of Computed = StartComputed None"

text \<open>
  A version transition of a component: its kill, or its start with tag \<^verbatim>\<open>None\<close>.
\<close>

definition transition :: "component \<Rightarrow> 'c Action \<Rightarrow> bool" where
  "transition c a = (kills c a \<or> started a = Some (c, None))"

text \<open>
  Walking a sequence with one bit per component, running or stopped: a start of a running
  component is refused, a kill stops the component, every other action leaves it alone.
\<close>

fun lifecycle_ok :: "component \<Rightarrow> bool \<Rightarrow> 'c Action list \<Rightarrow> bool" where
  "lifecycle_ok c running [] = True"
| "lifecycle_ok c running (a # as) =
     (if starts c a then \<not> running \<and> lifecycle_ok c True as
      else if kills c a then lifecycle_ok c False as
      else lifecycle_ok c running as)"

text \<open>The ordinal positions (from 0) of the elements of a list that satisfy a predicate.\<close>

fun positions_from :: "nat \<Rightarrow> ('a \<Rightarrow> bool) \<Rightarrow> 'a list \<Rightarrow> nat list" where
  "positions_from n P [] = []"
| "positions_from n P (x # xs) =
     (if P x then n # positions_from (Suc n) P xs else positions_from (Suc n) P xs)"

definition positions :: "('a \<Rightarrow> bool) \<Rightarrow> 'a list \<Rightarrow> nat list" where
  "positions P xs = positions_from 0 P xs"

text \<open>The tags a component is started with, in the order of the sequence.\<close>

fun start_tags :: "component \<Rightarrow> 'c Action list \<Rightarrow> string option list" where
  "start_tags c [] = []"
| "start_tags c (a # as) =
     (case started a of
        Some (c', tag) \<Rightarrow> if c' = c then tag # start_tags c as else start_tags c as
      | None \<Rightarrow> start_tags c as)"

text \<open>
  The two-element order on tags: a released version (a string) is below the build under
  test (\<^verbatim>\<open>None\<close>).
\<close>

fun version_rank :: "string option \<Rightarrow> nat" where
  "version_rank (Some _) = 0"
| "version_rank None = 1"

text \<open>
  The version of a component once a prefix of the sequence has run: the tag of its last
  start (\<open>None\<close> when the prefix never starts it; a kill stops the component and leaves
  the version it last ran). At position \<open>i\<close> the worker is newer than the coordinators
  when, after the first \<open>i\<close> actions, the worker's version is the one under test and the
  coordinators' is a released one.
\<close>

definition current_tag :: "component \<Rightarrow> 'c Action list \<Rightarrow> string option option" where
  "current_tag c pre = (case rev (start_tags c pre) of [] \<Rightarrow> None | t # _ \<Rightarrow> Some t)"

definition worker_newer_at :: "'c Action list \<Rightarrow> nat \<Rightarrow> bool" where
  "worker_newer_at xs i =
     (current_tag Computed (take i xs) = Some None \<and>
      (case current_tag Mz (take i xs) of Some (Some v) \<Rightarrow> True | _ \<Rightarrow> False))"

definition newer_positions :: "'c Action list \<Rightarrow> nat list" where
  "newer_positions xs = filter (worker_newer_at xs) [0..<length xs]"

fun is_Sleep :: "'c Action \<Rightarrow> bool" where
  "is_Sleep (Sleep _) = True"
| "is_Sleep _ = False"

fun is_Manipulate :: "'c Action \<Rightarrow> bool" where
  "is_Manipulate (Manipulate _ _) = True"
| "is_Manipulate _ = False"

fun is_Validate :: "'c Action \<Rightarrow> bool" where
  "is_Validate (Validate _) = True"
| "is_Validate _ = False"

text \<open>The environment overrides a call passes, if it passes any.\<close>

fun env_overrides :: "'c Action \<Rightarrow> string list option" where
  "env_overrides (StartMz _ env) = env"
| "env_overrides _ = None"

text \<open>A concrete state, to instantiate the theorems below.\<close>

definition example_globals :: module_globals where
  \<open>example_globals =
     \<lparr> LAST_RELEASED_VERSION = ''v0.27.0'',
       size' = ''4'',
       environment_extra =
         [ ''MZ_STORAGE_HOST_SIZES={"4":{"workers":4}}'',
           ''MZ_CLUSTER_REPLICA_SIZES={"1":{"workers":1,"scale":1},"4-4":{"workers":4,"scale":4}}'' ] \<rparr>\<close>

definition example_state :: "string list state" where
  "example_state = \<lparr> globals = example_globals, checks = [''CreateTable'', ''Sink''] \<rparr>"

subsection \<open>The scenario executor\<close>

text \<open>
  Modelled from the spec: the result of an action's \<^verbatim>\<open>apply\<close>. The classes of the actions
  and the code that runs a scenario (\<^verbatim>\<open>materialize.checks.actions\<close>,
  \<^verbatim>\<open>materialize.checks.scenarios\<close>) are not among the source files; the spec gives the
  contract \<^verbatim>\<open>apply(executor_context) -> success | failure(reason)\<close>.
\<close>

datatype 'r result = Success | Failure 'r

text \<open>
  Modelled from the spec: the executor's states,
  \<^verbatim>\<open>Pending -> Running(index i) -> {Completed | Aborted(reason, index i)}\<close>.
\<close>

datatype 'r exec_state = Pending | Running nat | Completed | Aborted 'r nat

text \<open>
  Modelled from the spec: the executor owns the cluster runtime state (\<open>ctx\<close>, handed to
  every \<^verbatim>\<open>apply\<close>). The field \<open>applied\<close> is the log of the run: the index of every action
  that was applied, with its result, in the order of application.
\<close>

record ('r, 'x) executor =
  status :: "'r exec_state"
  ctx :: 'x
  applied :: "(nat \<times> 'r result) list"

text \<open>
  Modelled from the spec: the transition rule. From \<^verbatim>\<open>Running(i)\<close>, apply \<^verbatim>\<open>actions[i]\<close>; on
  success advance to \<^verbatim>\<open>Running(i+1)\<close>, or to \<^verbatim>\<open>Completed\<close> if \<^verbatim>\<open>i+1 == length\<close>; on failure
  go to \<^verbatim>\<open>Aborted\<close> and stop. An action's \<^verbatim>\<open>apply\<close> may change the cluster state whether it
  succeeds or fails, so it returns the state with its result. The spec names no rule for
  an empty sequence and none for an index out of range: here \<^verbatim>\<open>Pending\<close> goes to
  \<^verbatim>\<open>Completed\<close> on an empty sequence and to \<^verbatim>\<open>Running(0)\<close> otherwise, and a state
  \<^verbatim>\<open>Running(i)\<close> with \<open>i\<close> out of range (never reached from \<^verbatim>\<open>Pending\<close>) has no successor.
\<close>

definition step ::
  "('a \<Rightarrow> 'x \<Rightarrow> 'r result \<times> 'x) \<Rightarrow> 'a list \<Rightarrow> ('r, 'x) executor \<Rightarrow> ('r, 'x) executor" where
  "step apply_action actions e =
     (case status e of
        Pending \<Rightarrow> e\<lparr>status := (if actions = [] then Completed else Running 0)\<rparr>
      | Running i \<Rightarrow>
          if i < length actions then
            (case apply_action (actions ! i) (ctx e) of
               (Success, x') \<Rightarrow>
                 \<lparr>status = (if Suc i = length actions then Completed else Running (Suc i)),
                  ctx = x', applied = applied e @ [(i, Success)]\<rparr>
             | (Failure r, x') \<Rightarrow>
                 \<lparr>status = Aborted r i, ctx = x', applied = applied e @ [(i, Failure r)]\<rparr>)
          else e
      | Completed \<Rightarrow> e
      | Aborted r i \<Rightarrow> e)"

text \<open>
  Modelled from the spec: a run starts in \<^verbatim>\<open>Pending\<close> and takes one transition to leave it
  and one per action, which always reaches \<^verbatim>\<open>Completed\<close> or \<^verbatim>\<open>Aborted\<close> (lemma
  \<open>execute_final\<close>); both are final.
\<close>

definition execute ::
  "('a \<Rightarrow> 'x \<Rightarrow> 'r result \<times> 'x) \<Rightarrow> 'a list \<Rightarrow> 'x \<Rightarrow> ('r, 'x) executor" where
  "execute apply_action actions x =
     ((step apply_action actions) ^^ Suc (length actions))
       \<lparr>status = Pending, ctx = x, applied = []\<rparr>"

text \<open>The log of \<open>n\<close> successes, and what holds of the executor after \<open>n\<close> transitions.\<close>

definition successes :: "nat \<Rightarrow> (nat \<times> 'r result) list" where
  "successes n = map (\<lambda>j. (j, Success)) [0..<n]"

definition run_inv :: "'a list \<Rightarrow> nat \<Rightarrow> ('r, 'x) executor \<Rightarrow> bool" where
  "run_inv actions n e =
     (case status e of
        Pending \<Rightarrow> n = 0 \<and> applied e = []
      | Running i \<Rightarrow> Suc i = n \<and> i < length actions \<and> applied e = successes i
      | Completed \<Rightarrow> applied e = successes (length actions)
      | Aborted r k \<Rightarrow> k < length actions \<and> applied e = successes k @ [(k, Failure r)])"

text \<open>
  A backend for the concrete runs below: killing the coordinators fails, every other action
  succeeds; the cluster state is the list of the actions applied so far, latest first.
\<close>

definition kill_mz_fails :: "'c Action \<Rightarrow> 'c Action list \<Rightarrow> string result \<times> 'c Action list" where
  "kill_mz_fails a x = (if a = KillMz then Failure ''KillMz failed'' else Success, a # x)"

section \<open>Auxiliary facts\<close>

lemmas scenario_defs =
  UpgradeEntireMz_actions_def UpgradeComputedLast_actions_def UpgradeComputedFirst_actions_def

subsection \<open>Importing the module\<close>

lemma import_module_no_release: "import_module [] default_size = Inl IndexError"
  by (simp add: import_module_def)

lemma import_module_first_release:
  "import_module (v # vs) default_size = Inr g \<Longrightarrow> LAST_RELEASED_VERSION g = ''v'' @ v"
  by (auto simp: import_module_def)

lemma import_module_example: "import_module [''0.27.0'', ''0.26.1''] ''4'' = Inr example_globals"
  by (simp add: import_module_def example_globals_def)

subsection \<open>Positions\<close>

lemma set_positions_from:
  "set (positions_from n P xs) = {n + i | i. i < length xs \<and> P (xs ! i)}"
proof (induction xs arbitrary: n)
  case Nil
  then show ?case by simp
next
  case (Cons x xs)
  have split: "{n + i | i. i < length (x # xs) \<and> P ((x # xs) ! i)} =
        (if P x then {n} else {}) \<union> {Suc n + i | i. i < length xs \<and> P (xs ! i)}"
  proof (rule set_eqI)
    fix m
    show "m \<in> {n + i | i. i < length (x # xs) \<and> P ((x # xs) ! i)} \<longleftrightarrow>
          m \<in> (if P x then {n} else {}) \<union> {Suc n + i | i. i < length xs \<and> P (xs ! i)}"
    proof
      assume "m \<in> {n + i | i. i < length (x # xs) \<and> P ((x # xs) ! i)}"
      then obtain i where i: "m = n + i" "i < length (x # xs)" "P ((x # xs) ! i)" by blast
      show "m \<in> (if P x then {n} else {}) \<union> {Suc n + i | i. i < length xs \<and> P (xs ! i)}"
      proof (cases i)
        case 0
        with i show ?thesis by simp
      next
        case (Suc i')
        with i have "m = Suc n + i' \<and> i' < length xs \<and> P (xs ! i')" by simp
        then show ?thesis by blast
      qed
    next
      assume "m \<in> (if P x then {n} else {}) \<union> {Suc n + i | i. i < length xs \<and> P (xs ! i)}"
      then consider "P x" "m = n" | i where "m = Suc n + i" "i < length xs" "P (xs ! i)"
        by (auto split: if_splits)
      then show "m \<in> {n + i | i. i < length (x # xs) \<and> P ((x # xs) ! i)}"
      proof cases
        case 1
        then have "m = n + 0 \<and> 0 < length (x # xs) \<and> P ((x # xs) ! 0)" by simp
        then show ?thesis by blast
      next
        case 2
        then have "m = n + Suc i \<and> Suc i < length (x # xs) \<and> P ((x # xs) ! Suc i)" by simp
        then show ?thesis by blast
      qed
    qed
  qed
  show ?case unfolding split using Cons.IH [of "Suc n"] by auto
qed

lemma in_positions: "i \<in> set (positions P xs) \<longleftrightarrow> i < length xs \<and> P (xs ! i)"
  by (simp add: positions_def set_positions_from)

lemma length_filter_positions: "length (filter P xs) = length (positions P xs)"
proof -
  have "length (filter P xs) = length (positions_from n P xs)" for n
    by (induction xs arbitrary: n) auto
  then show ?thesis by (simp add: positions_def)
qed

lemma in_newer_positions:
  "i \<in> set (newer_positions xs) \<longleftrightarrow> i < length xs \<and> worker_newer_at xs i"
  by (auto simp: newer_positions_def)

subsection \<open>Starts and kills alternate\<close>

lemma running_start_has_kill:
  "lifecycle_ok c True xs \<Longrightarrow> j < length xs \<Longrightarrow> starts c (xs ! j) \<Longrightarrow>
     \<exists>k<j. kills c (xs ! k)"
proof (induction xs arbitrary: j)
  case Nil
  then show ?case by simp
next
  case (Cons a as)
  show ?case
  proof (cases j)
    case 0
    with Cons.prems show ?thesis by simp
  next
    case (Suc j')
    show ?thesis
    proof (cases "kills c a")
      case True
      then show ?thesis using Suc by auto
    next
      case False
      with Cons.prems have "\<not> starts c a" and ok: "lifecycle_ok c True as"
        by (auto split: if_splits)
      from Cons.IH [OF ok, of j'] Cons.prems Suc
      obtain k where "k < j'" "kills c (as ! k)" by auto
      then have "Suc k < j \<and> kills c ((a # as) ! Suc k)" using Suc by simp
      then show ?thesis by blast
    qed
  qed
qed

lemma lifecycle_ok_kill_between:
  "lifecycle_ok c r xs \<Longrightarrow> i < j \<Longrightarrow> j < length xs \<Longrightarrow> starts c (xs ! i) \<Longrightarrow>
   starts c (xs ! j) \<Longrightarrow> \<exists>k. i < k \<and> k < j \<and> kills c (xs ! k)"
proof (induction xs arbitrary: i j r)
  case Nil
  then show ?case by simp
next
  case (Cons a as)
  from Cons.prems obtain j' where j: "j = Suc j'" by (cases j) auto
  show ?case
  proof (cases i)
    case 0
    with Cons.prems have "starts c a" by simp
    with Cons.prems have ok: "lifecycle_ok c True as" by simp
    from Cons.prems j have "j' < length as" "starts c (as ! j')" by auto
    from running_start_has_kill [OF ok this]
    obtain k where "k < j'" "kills c (as ! k)" by auto
    then have "i < Suc k \<and> Suc k < j \<and> kills c ((a # as) ! Suc k)"
      using 0 j by simp
    then show ?thesis by blast
  next
    case (Suc i')
    from Cons.prems obtain r' where ok: "lifecycle_ok c r' as"
      by (auto split: if_splits)
    from Cons.prems Suc j
    have "i' < j'" "j' < length as" "starts c (as ! i')" "starts c (as ! j')"
      by auto
    from Cons.IH [OF ok this]
    obtain k where "i' < k" "k < j'" "kills c (as ! k)" by auto
    then have "i < Suc k \<and> Suc k < j \<and> kills c ((a # as) ! Suc k)"
      using Suc j by simp
    then show ?thesis by blast
  qed
qed

subsection \<open>The three sequences, evaluated\<close>

lemma actions_nonempty:
  "fst (UpgradeEntireMz_actions s) \<noteq> [] \<and> length (fst (UpgradeEntireMz_actions s)) = 7"
  "fst (UpgradeComputedLast_actions s) \<noteq> [] \<and> length (fst (UpgradeComputedLast_actions s)) = 12"
  "fst (UpgradeComputedFirst_actions s) \<noteq> [] \<and> length (fst (UpgradeComputedFirst_actions s)) = 12"
  by (simp_all add: scenario_defs)

lemma lifecycle_ok_scenarios:
  "lifecycle_ok c False (fst (UpgradeEntireMz_actions s))"
  "lifecycle_ok c False (fst (UpgradeComputedLast_actions s))"
  "lifecycle_ok c False (fst (UpgradeComputedFirst_actions s))"
  by (cases c; simp add: scenario_defs starts_def kills_def)+

lemma start_kill_positions_EntireMz:
  "positions (starts Mz) (fst (UpgradeEntireMz_actions s)) = [0, 4]"
  "positions (kills Mz) (fst (UpgradeEntireMz_actions s)) = [3]"
  "positions (starts Computed) (fst (UpgradeEntireMz_actions s)) = []"
  "positions (kills Computed) (fst (UpgradeEntireMz_actions s)) = []"
  by (simp_all add: scenario_defs positions_def starts_def kills_def)

lemma start_kill_positions_ComputedLast:
  "positions (starts Mz) (fst (UpgradeComputedLast_actions s)) = [0, 6]"
  "positions (kills Mz) (fst (UpgradeComputedLast_actions s)) = [5]"
  "positions (starts Computed) (fst (UpgradeComputedLast_actions s)) = [1, 9]"
  "positions (kills Computed) (fst (UpgradeComputedLast_actions s)) = [8]"
  by (simp_all add: scenario_defs positions_def starts_def kills_def)

lemma start_kill_positions_ComputedFirst:
  "positions (starts Mz) (fst (UpgradeComputedFirst_actions s)) = [0, 9]"
  "positions (kills Mz) (fst (UpgradeComputedFirst_actions s)) = [8]"
  "positions (starts Computed) (fst (UpgradeComputedFirst_actions s)) = [1, 6]"
  "positions (kills Computed) (fst (UpgradeComputedFirst_actions s)) = [5]"
  by (simp_all add: scenario_defs positions_def starts_def kills_def)

lemma transition_positions_ComputedLast:
  "positions is_Sleep (fst (UpgradeComputedLast_actions s)) = [7]"
  "positions (transition Mz) (fst (UpgradeComputedLast_actions s)) = [5, 6]"
  "positions (transition Computed) (fst (UpgradeComputedLast_actions s)) = [8, 9]"
  by (simp_all add: scenario_defs positions_def transition_def kills_def)

lemma transition_positions_ComputedFirst:
  "positions is_Sleep (fst (UpgradeComputedFirst_actions s)) = [7]"
  "positions (transition Computed) (fst (UpgradeComputedFirst_actions s)) = [5, 6]"
  "positions (transition Mz) (fst (UpgradeComputedFirst_actions s)) = [8, 9]"
  by (simp_all add: scenario_defs positions_def transition_def kills_def)

lemma newer_positions_scenarios:
  "newer_positions (fst (UpgradeEntireMz_actions s)) = []"
  "newer_positions (fst (UpgradeComputedLast_actions s)) = []"
  "newer_positions (fst (UpgradeComputedFirst_actions s)) = [7, 8, 9]"
  by (simp_all add: newer_positions_def scenario_defs worker_newer_at_def current_tag_def
        upt_rec [of _ "numeral _"] upt_rec [of 0])

lemma start_tags_scenarios:
  "start_tags Mz (fst (UpgradeEntireMz_actions s)) = [Some (LAST_RELEASED_VERSION (globals s)), None]"
  "start_tags Computed (fst (UpgradeEntireMz_actions s)) = []"
  "start_tags c (fst (UpgradeComputedLast_actions s)) = [Some (LAST_RELEASED_VERSION (globals s)), None]"
  "start_tags c (fst (UpgradeComputedFirst_actions s)) = [Some (LAST_RELEASED_VERSION (globals s)), None]"
  by (cases c; simp add: scenario_defs)+

subsection \<open>The executor\<close>

lemma successes_Suc: "successes (Suc n) = successes n @ [(n, Success)]"
  by (simp add: successes_def)

lemma Failure_notin_successes: "(k, Failure r) \<notin> set (successes n)"
  by (auto simp: successes_def)

lemma map_fst_successes: "map fst (successes n) = [0..<n]"
  by (simp add: successes_def comp_def)

lemma run_inv_step:
  assumes "run_inv actions n e"
  shows "run_inv actions (Suc n) (step apply_action actions e)"
proof (cases "status e")
  case Pending
  with assms show ?thesis
    by (auto simp: run_inv_def step_def successes_def)
next
  case (Running i)
  with assms have i: "Suc i = n" "i < length actions" "applied e = successes i"
    by (auto simp: run_inv_def)
  obtain res x' where ap: "apply_action (actions ! i) (ctx e) = (res, x')"
    by (cases "apply_action (actions ! i) (ctx e)")
  show ?thesis
  proof (cases res)
    case Success
    with Running i ap show ?thesis
      by (auto simp: run_inv_def step_def successes_Suc [symmetric])
  next
    case (Failure r)
    with Running i ap show ?thesis
      by (auto simp: run_inv_def step_def)
  qed
next
  case Completed
  with assms show ?thesis by (auto simp: run_inv_def step_def)
next
  case (Aborted r k)
  with assms show ?thesis by (auto simp: run_inv_def step_def)
qed

lemma run_inv_funpow:
  "run_inv actions n
     ((step apply_action actions ^^ n) \<lparr>status = Pending, ctx = x, applied = []\<rparr>)"
proof (induction n)
  case 0
  show ?case by (simp add: run_inv_def)
next
  case (Suc n)
  from run_inv_step [OF Suc] show ?case by simp
qed

lemma run_inv_execute:
  "run_inv actions (Suc (length actions)) (execute apply_action actions x)"
  unfolding execute_def by (rule run_inv_funpow)

lemma execute_final:
  "status (execute apply_action actions x) = Completed
   \<or> (\<exists>r k. status (execute apply_action actions x) = Aborted r k)"
  using run_inv_execute [of actions apply_action x]
  by (cases "status (execute apply_action actions x)") (auto simp: run_inv_def)

lemma step_failure_aborts:
  "status e = Running k \<Longrightarrow> k < length actions \<Longrightarrow>
   apply_action (actions ! k) (ctx e) = (Failure r, x') \<Longrightarrow>
   step apply_action actions e =
     \<lparr>status = Aborted r k, ctx = x', applied = applied e @ [(k, Failure r)]\<rparr>"
  by (simp add: step_def)

lemma step_final:
  "status e = Completed \<or> status e = Aborted r k \<Longrightarrow> step apply_action actions e = e"
  by (auto simp: step_def)

section \<open>The claims\<close>

text \<open>
  C1. Worker-upgraded-last (\<^verbatim>\<open>UpgradeComputedLast\<close>): the coordinators and the worker are
  each started at the last released version, then Initialize and Manipulate phase 1 run,
  then the coordinators alone are killed and restarted at the version under test, then the
  sequence sleeps, then the worker is killed and restarted at the version under test, then
  Manipulate phase 2 runs, and Validate is last. The returned list holds one more action,
  which the claim leaves out: \<^verbatim>\<open>UseComputed()\<close>, between the start of the worker and
  Initialize. It starts and kills nothing; without it the list is the claim's sequence,
  element by element.
\<close>

theorem UpgradeComputedLast_sequence:
  "fst (UpgradeComputedLast_actions s) =
     [ StartMz (Some (LAST_RELEASED_VERSION (globals s))) (Some (environment_extra (globals s))),
       StartComputed (Some (LAST_RELEASED_VERSION (globals s))),
       UseComputed,
       Initialize (checks s), Manipulate (checks s) 1,
       KillMz, StartMz None None,
       Sleep 10,
       KillComputed, StartComputed None,
       Manipulate (checks s) 2, Validate (checks s) ]
   \<and> filter (\<lambda>a. a \<noteq> UseComputed) (fst (UpgradeComputedLast_actions s)) =
     [ StartMz (Some (LAST_RELEASED_VERSION (globals s))) (Some (environment_extra (globals s))),
       StartComputed (Some (LAST_RELEASED_VERSION (globals s))),
       Initialize (checks s), Manipulate (checks s) 1,
       KillMz, StartMz None None,
       Sleep 10,
       KillComputed, StartComputed None,
       Manipulate (checks s) 2, Validate (checks s) ]
   \<and> started UseComputed = None \<and> killed UseComputed = None
   \<and> last (fst (UpgradeComputedLast_actions s)) = Validate (checks s)"
  by (simp add: UpgradeComputedLast_actions_def)

theorem UpgradeComputedLast_sequence_witness:
  "filter (\<lambda>a. a \<noteq> UseComputed) (fst (UpgradeComputedLast_actions example_state)) =
     [ StartMz (Some ''v0.27.0'') (Some (environment_extra example_globals)),
       StartComputed (Some ''v0.27.0''),
       Initialize [''CreateTable'', ''Sink''], Manipulate [''CreateTable'', ''Sink''] 1,
       KillMz, StartMz None None,
       Sleep 10,
       KillComputed, StartComputed None,
       Manipulate [''CreateTable'', ''Sink''] 2, Validate [''CreateTable'', ''Sink''] ]
   \<and> last (fst (UpgradeComputedLast_actions example_state)) = Validate [''CreateTable'', ''Sink'']"
  using UpgradeComputedLast_sequence [of example_state]
  by (simp add: example_state_def example_globals_def)

text \<open>
  C2. Worker-upgraded-first (\<^verbatim>\<open>UpgradeComputedFirst\<close>) is Worker-upgraded-last with the two
  upgrades exchanged around the Sleep: both lists share their first five and their last two
  actions, and in between one has the worker's kill and restart, \<^verbatim>\<open>Sleep(10)\<close>, the
  coordinators' kill and restart, the other the same blocks in the opposite order. In
  Worker-upgraded-first each of these actions occurs once, at the positions 5 (KillComputed),
  6 (StartComputed with tag None), 7 (Sleep(10)), 8 (KillMz), 9 (StartMz with tag None),
  10 (Manipulate phase 2) and 11 (Validate), the last of the twelve.
\<close>

theorem UpgradeComputedFirst_sequence:
  "fst (UpgradeComputedFirst_actions s) =
     take 5 (fst (UpgradeComputedLast_actions s))
     @ [KillComputed, StartComputed None] @ [Sleep 10] @ [KillMz, StartMz None None]
     @ drop 10 (fst (UpgradeComputedLast_actions s))
   \<and> fst (UpgradeComputedLast_actions s) =
     take 5 (fst (UpgradeComputedLast_actions s))
     @ [KillMz, StartMz None None] @ [Sleep 10] @ [KillComputed, StartComputed None]
     @ drop 10 (fst (UpgradeComputedLast_actions s))
   \<and> positions (\<lambda>a. a = KillComputed) (fst (UpgradeComputedFirst_actions s)) = [5]
   \<and> positions (\<lambda>a. a = StartComputed None) (fst (UpgradeComputedFirst_actions s)) = [6]
   \<and> positions (\<lambda>a. a = Sleep 10) (fst (UpgradeComputedFirst_actions s)) = [7]
   \<and> positions (\<lambda>a. a = KillMz) (fst (UpgradeComputedFirst_actions s)) = [8]
   \<and> positions (\<lambda>a. a = StartMz None None) (fst (UpgradeComputedFirst_actions s)) = [9]
   \<and> positions (\<lambda>a. a = Manipulate (checks s) 2) (fst (UpgradeComputedFirst_actions s)) = [10]
   \<and> positions (\<lambda>a. a = Validate (checks s)) (fst (UpgradeComputedFirst_actions s)) = [11]
   \<and> length (fst (UpgradeComputedFirst_actions s)) = 12"
  by (simp add: scenario_defs positions_def)

theorem UpgradeComputedFirst_sequence_witness:
  "fst (UpgradeComputedFirst_actions example_state) =
     [ StartMz (Some ''v0.27.0'') (Some (environment_extra example_globals)),
       StartComputed (Some ''v0.27.0''),
       UseComputed,
       Initialize [''CreateTable'', ''Sink''], Manipulate [''CreateTable'', ''Sink''] 1,
       KillComputed, StartComputed None,
       Sleep 10,
       KillMz, StartMz None None,
       Manipulate [''CreateTable'', ''Sink''] 2, Validate [''CreateTable'', ''Sink''] ]
   \<and> positions (\<lambda>a. a = KillComputed) (fst (UpgradeComputedFirst_actions example_state)) = [5]
   \<and> positions (\<lambda>a. a = KillMz) (fst (UpgradeComputedFirst_actions example_state)) = [8]"
  using UpgradeComputedFirst_sequence [of example_state]
  by (simp add: example_state_def example_globals_def UpgradeComputedLast_actions_def positions_def)

text \<open>
  C3. Whole-cluster-at-once (\<^verbatim>\<open>UpgradeEntireMz\<close>): the returned list is exactly: start
  everything at the last released version, Initialize, Manipulate phase 1, kill everything,
  start everything at the version under test, Manipulate phase 2, Validate. It holds no
  Sleep action, whatever the duration.
\<close>

theorem UpgradeEntireMz_sequence:
  "fst (UpgradeEntireMz_actions s) =
     [ StartMz (Some (LAST_RELEASED_VERSION (globals s))) (Some (environment_extra (globals s))),
       Initialize (checks s), Manipulate (checks s) 1,
       KillMz, StartMz None None,
       Manipulate (checks s) 2, Validate (checks s) ]
   \<and> length (fst (UpgradeEntireMz_actions s)) = 7
   \<and> filter is_Sleep (fst (UpgradeEntireMz_actions s)) = []
   \<and> (\<forall>d. Sleep d \<notin> set (fst (UpgradeEntireMz_actions s)))"
  by (simp add: UpgradeEntireMz_actions_def)

theorem UpgradeEntireMz_sequence_witness:
  "fst (UpgradeEntireMz_actions example_state) =
     [ StartMz (Some ''v0.27.0'') (Some (environment_extra example_globals)),
       Initialize [''CreateTable'', ''Sink''], Manipulate [''CreateTable'', ''Sink''] 1,
       KillMz, StartMz None None,
       Manipulate [''CreateTable'', ''Sink''] 2, Validate [''CreateTable'', ''Sink''] ]
   \<and> filter is_Sleep (fst (UpgradeEntireMz_actions example_state)) = []"
  using UpgradeEntireMz_sequence [of example_state]
  by (simp add: example_state_def example_globals_def)

text \<open>
  C4. In each of the three scenarios and for each component (the coordinators, target of
  StartMz and KillMz, and the worker, target of StartComputed and KillComputed), no
  component is started again before it has been stopped: walking the sequence from a stopped
  cluster never starts a running component; between any two starts of a component lies a
  kill of it; and every kill of a component that is started twice lies strictly after its
  first start and strictly before its second.
\<close>

theorem no_restart_before_stop:
  assumes "xs = fst (UpgradeEntireMz_actions s) \<or> xs = fst (UpgradeComputedLast_actions s)
         \<or> xs = fst (UpgradeComputedFirst_actions s)"
  shows "lifecycle_ok c False xs
       \<and> (\<forall>i j. i < j \<and> j < length xs \<and> starts c (xs ! i) \<and> starts c (xs ! j)
            \<longrightarrow> (\<exists>k. i < k \<and> k < j \<and> kills c (xs ! k)))
       \<and> (\<forall>i j k. i < j \<and> j < length xs \<and> starts c (xs ! i) \<and> starts c (xs ! j)
              \<and> k < length xs \<and> kills c (xs ! k)
            \<longrightarrow> i < k \<and> k < j)"
proof -
  have ok: "lifecycle_ok c False xs"
    using assms lifecycle_ok_scenarios [of c s] by blast
  have between: "\<exists>k. i < k \<and> k < j \<and> kills c (xs ! k)"
    if "i < j \<and> j < length xs \<and> starts c (xs ! i) \<and> starts c (xs ! j)" for i j
    using lifecycle_ok_kill_between [OF ok, of i j] that by blast
  have pos: "(positions (starts c) xs = [] \<and> positions (kills c) xs = [])
      \<or> (\<exists>a k b. positions (starts c) xs = [a, b] \<and> positions (kills c) xs = [k] \<and> a < k \<and> k < b)"
    using assms start_kill_positions_EntireMz [of s] start_kill_positions_ComputedLast [of s]
      start_kill_positions_ComputedFirst [of s]
    by (cases c) auto
  have strict: "i < k \<and> k < j"
    if h: "i < j \<and> j < length xs \<and> starts c (xs ! i) \<and> starts c (xs ! j)
         \<and> k < length xs \<and> kills c (xs ! k)" for i j k
  proof -
    from h have mem: "i \<in> set (positions (starts c) xs)" "j \<in> set (positions (starts c) xs)"
      "k \<in> set (positions (kills c) xs)"
      by (simp_all add: in_positions)
    with pos obtain a m b where
      "positions (starts c) xs = [a, b]" "positions (kills c) xs = [m]" "a < m" "m < b"
      by auto
    with mem h show ?thesis by auto
  qed
  from ok between strict show ?thesis by blast
qed

theorem no_restart_before_stop_witness:
  "(1::nat) < 6 \<and> 6 < length (fst (UpgradeComputedFirst_actions example_state))
   \<and> starts Computed (fst (UpgradeComputedFirst_actions example_state) ! 1)
   \<and> starts Computed (fst (UpgradeComputedFirst_actions example_state) ! 6)
   \<and> 5 < length (fst (UpgradeComputedFirst_actions example_state))
   \<and> kills Computed (fst (UpgradeComputedFirst_actions example_state) ! 5)
   \<and> lifecycle_ok Computed False (fst (UpgradeComputedFirst_actions example_state))
   \<and> (\<exists>k. 1 < k \<and> k < 6 \<and> kills Computed (fst (UpgradeComputedFirst_actions example_state) ! k))
   \<and> (1::nat) < 5 \<and> (5::nat) < 6"
proof -
  let ?xs = "fst (UpgradeComputedFirst_actions example_state)"
  have hyp: "(1::nat) < 6 \<and> 6 < length ?xs \<and> starts Computed (?xs ! 1) \<and> starts Computed (?xs ! 6)"
    and kill: "5 < length ?xs \<and> kills Computed (?xs ! 5)"
    by (simp_all add: UpgradeComputedFirst_actions_def starts_def kills_def)
  have "?xs = fst (UpgradeEntireMz_actions example_state)
      \<or> ?xs = fst (UpgradeComputedLast_actions example_state)
      \<or> ?xs = fst (UpgradeComputedFirst_actions example_state)"
    by simp
  from no_restart_before_stop [OF this, of Computed]
  have ok: "lifecycle_ok Computed False ?xs"
    and between: "\<forall>i j. i < j \<and> j < length ?xs \<and> starts Computed (?xs ! i) \<and> starts Computed (?xs ! j)
            \<longrightarrow> (\<exists>k. i < k \<and> k < j \<and> kills Computed (?xs ! k))"
    and strict: "\<forall>i j k. i < j \<and> j < length ?xs \<and> starts Computed (?xs ! i) \<and> starts Computed (?xs ! j)
              \<and> k < length ?xs \<and> kills Computed (?xs ! k)
            \<longrightarrow> i < k \<and> k < j"
    by blast+
  from between hyp have ex: "\<exists>k. 1 < k \<and> k < 6 \<and> kills Computed (?xs ! k)" by blast
  from strict hyp kill have "(1::nat) < 5 \<and> (5::nat) < 6" by blast
  with ex hyp kill ok show ?thesis by blast
qed

text \<open>
  C5. Worker-upgraded-last and Worker-upgraded-first each hold exactly one Sleep action,
  \<^verbatim>\<open>Sleep(10)\<close>. Every version transition (kill, start at the version under test) of the
  role that is upgraded first stands strictly before it, and every version transition of
  the role that is upgraded second strictly after it; the transitions of either role are
  its kill followed by its restart. The coordinators go first in Worker-upgraded-last, the
  worker goes first in Worker-upgraded-first.
\<close>

theorem sleep_between_upgrades:
  assumes "xs = fst (UpgradeComputedLast_actions s) \<and> first = Mz \<and> second = Computed
         \<or> xs = fst (UpgradeComputedFirst_actions s) \<and> first = Computed \<and> second = Mz"
  shows "length (filter is_Sleep xs) = 1
       \<and> (\<exists>p. p < length xs \<and> xs ! p = Sleep 10
            \<and> (\<forall>q. q < length xs \<and> is_Sleep (xs ! q) \<longrightarrow> q = p)
            \<and> (\<forall>i. i < length xs \<and> transition first (xs ! i) \<longrightarrow> i < p)
            \<and> (\<forall>i. i < length xs \<and> transition second (xs ! i) \<longrightarrow> p < i))
       \<and> map ((!) xs) (positions (transition first) xs) = [kill_of first, restart_of first]
       \<and> map ((!) xs) (positions (transition second) xs) = [kill_of second, restart_of second]"
proof -
  have pos: "positions is_Sleep xs = [7] \<and> positions (transition first) xs = [5, 6]
      \<and> positions (transition second) xs = [8, 9]"
    using assms transition_positions_ComputedLast [of s] transition_positions_ComputedFirst [of s]
    by auto
  have len: "length xs = 12" and at7: "xs ! 7 = Sleep 10"
    using assms by (auto simp: scenario_defs)
  have one: "length (filter is_Sleep xs) = 1"
    using pos by (simp add: length_filter_positions)
  have sl: "q < length xs \<and> is_Sleep (xs ! q) \<longrightarrow> q = 7" for q
    using in_positions [of q is_Sleep xs] pos by simp
  have fi: "i < length xs \<and> transition first (xs ! i) \<longrightarrow> i < 7" for i
    using in_positions [of i "transition first" xs] pos by auto
  have se: "i < length xs \<and> transition second (xs ! i) \<longrightarrow> 7 < i" for i
    using in_positions [of i "transition second" xs] pos by auto
  have ex: "\<exists>p. p < length xs \<and> xs ! p = Sleep 10
            \<and> (\<forall>q. q < length xs \<and> is_Sleep (xs ! q) \<longrightarrow> q = p)
            \<and> (\<forall>i. i < length xs \<and> transition first (xs ! i) \<longrightarrow> i < p)
            \<and> (\<forall>i. i < length xs \<and> transition second (xs ! i) \<longrightarrow> p < i)"
    using len at7 sl fi se by (intro exI [of _ 7]) simp
  have m1: "map ((!) xs) (positions (transition first) xs) = [kill_of first, restart_of first]"
    using assms pos by (auto simp: scenario_defs)
  have m2: "map ((!) xs) (positions (transition second) xs) = [kill_of second, restart_of second]"
    using assms pos by (auto simp: scenario_defs)
  show ?thesis using one ex m1 m2 by blast
qed

theorem sleep_between_upgrades_witness:
  "length (filter is_Sleep (fst (UpgradeComputedLast_actions example_state))) = 1
   \<and> map ((!) (fst (UpgradeComputedLast_actions example_state)))
       (positions (transition Mz) (fst (UpgradeComputedLast_actions example_state)))
     = [KillMz, StartMz None None]
   \<and> map ((!) (fst (UpgradeComputedLast_actions example_state)))
       (positions (transition Computed) (fst (UpgradeComputedLast_actions example_state)))
     = [KillComputed, StartComputed None]
   \<and> positions is_Sleep (fst (UpgradeComputedLast_actions example_state)) = [7]
   \<and> positions (transition Mz) (fst (UpgradeComputedLast_actions example_state)) = [5, 6]
   \<and> positions (transition Computed) (fst (UpgradeComputedLast_actions example_state)) = [8, 9]"
proof -
  let ?xs = "fst (UpgradeComputedLast_actions example_state)"
  have "?xs = fst (UpgradeComputedLast_actions example_state) \<and> Mz = Mz \<and> Computed = Computed
      \<or> ?xs = fst (UpgradeComputedFirst_actions example_state) \<and> Mz = Computed \<and> Computed = Mz"
    by simp
  from sleep_between_upgrades [OF this]
  have "length (filter is_Sleep ?xs) = 1
      \<and> map ((!) ?xs) (positions (transition Mz) ?xs) = [KillMz, StartMz None None]
      \<and> map ((!) ?xs) (positions (transition Computed) ?xs) = [KillComputed, StartComputed None]"
    by simp
  moreover have "positions is_Sleep ?xs = [7] \<and> positions (transition Mz) ?xs = [5, 6]
      \<and> positions (transition Computed) ?xs = [8, 9]"
    by (simp add: UpgradeComputedLast_actions_def positions_def transition_def kills_def)
  ultimately show ?thesis by blast
qed

text \<open>
  C6. In each of the three scenarios no Manipulate and no Validate action stands at a
  position where the worker's version is the one under test while the coordinators' is
  still a released one. In Worker-upgraded-first the worker's restart at the version under
  test (StartComputed with tag None) is at position 6 and nowhere else, the coordinators'
  kill (KillMz) at position 8 and nowhere else, and the only action between them is
  \<^verbatim>\<open>Sleep(10)\<close>.
\<close>

theorem worker_newer_only_while_sleeping:
  "(\<forall>xs i. xs \<in> {fst (UpgradeEntireMz_actions s), fst (UpgradeComputedLast_actions s),
               fst (UpgradeComputedFirst_actions s)}
          \<and> i < length xs \<and> worker_newer_at xs i
        \<longrightarrow> \<not> is_Manipulate (xs ! i) \<and> \<not> is_Validate (xs ! i))
   \<and> positions (\<lambda>a. a = StartComputed None) (fst (UpgradeComputedFirst_actions s)) = [6]
   \<and> positions (\<lambda>a. a = KillMz) (fst (UpgradeComputedFirst_actions s)) = [8]
   \<and> (\<forall>i. 6 < i \<and> i < 8 \<longrightarrow> fst (UpgradeComputedFirst_actions s) ! i = Sleep 10)"
proof -
  have main: "\<not> is_Manipulate (xs ! i) \<and> \<not> is_Validate (xs ! i)"
    if xs: "xs \<in> {fst (UpgradeEntireMz_actions s), fst (UpgradeComputedLast_actions s),
               fst (UpgradeComputedFirst_actions s)}"
      and i: "i < length xs" "worker_newer_at xs i" for xs :: "'a Action list" and i
  proof -
    from i have mem: "i \<in> set (newer_positions xs)" by (simp add: in_newer_positions)
    from xs consider "xs = fst (UpgradeEntireMz_actions s)"
      | "xs = fst (UpgradeComputedLast_actions s)"
      | "xs = fst (UpgradeComputedFirst_actions s)" by blast
    then show ?thesis
    proof cases
      case 1
      with mem show ?thesis by (simp add: newer_positions_scenarios)
    next
      case 2
      with mem show ?thesis by (simp add: newer_positions_scenarios)
    next
      case 3
      with mem have "i = 7 \<or> i = 8 \<or> i = 9" by (simp add: newer_positions_scenarios)
      with 3 show ?thesis by (auto simp: scenario_defs)
    qed
  qed
  have p6: "positions (\<lambda>a. a = StartComputed None) (fst (UpgradeComputedFirst_actions s)) = [6]"
    by (simp add: scenario_defs positions_def)
  have p8: "positions (\<lambda>a. a = KillMz) (fst (UpgradeComputedFirst_actions s)) = [8]"
    by (simp add: scenario_defs positions_def)
  have between: "fst (UpgradeComputedFirst_actions s) ! i = Sleep 10" if "6 < i \<and> i < 8" for i
  proof -
    from that have "i = 7" by arith
    then show ?thesis by (simp add: scenario_defs)
  qed
  from main p6 p8 between show ?thesis by blast
qed

theorem worker_newer_only_while_sleeping_witness:
  "7 < length (fst (UpgradeComputedFirst_actions example_state))
   \<and> worker_newer_at (fst (UpgradeComputedFirst_actions example_state)) 7
   \<and> \<not> worker_newer_at (fst (UpgradeComputedFirst_actions example_state)) 6
   \<and> \<not> worker_newer_at (fst (UpgradeComputedFirst_actions example_state)) 10
   \<and> \<not> is_Manipulate (fst (UpgradeComputedFirst_actions example_state) ! 7)
   \<and> \<not> is_Validate (fst (UpgradeComputedFirst_actions example_state) ! 7)
   \<and> fst (UpgradeComputedFirst_actions example_state) ! 7 = Sleep 10"
proof -
  let ?xs = "fst (UpgradeComputedFirst_actions example_state)"
  have hyp: "7 < length ?xs \<and> worker_newer_at ?xs 7"
    and out: "\<not> worker_newer_at ?xs 6 \<and> \<not> worker_newer_at ?xs 10"
    by (simp_all add: UpgradeComputedFirst_actions_def worker_newer_at_def current_tag_def)
  have mem: "?xs \<in> {fst (UpgradeEntireMz_actions example_state),
      fst (UpgradeComputedLast_actions example_state), ?xs}"
    by simp
  from worker_newer_only_while_sleeping [of example_state]
  have quiet: "\<forall>xs i. xs \<in> {fst (UpgradeEntireMz_actions example_state),
               fst (UpgradeComputedLast_actions example_state), ?xs}
          \<and> i < length xs \<and> worker_newer_at xs i
        \<longrightarrow> \<not> is_Manipulate (xs ! i) \<and> \<not> is_Validate (xs ! i)"
    and sleep: "\<forall>i. 6 < i \<and> i < 8 \<longrightarrow> ?xs ! i = Sleep 10"
    by blast+
  from quiet mem hyp have "\<not> is_Manipulate (?xs ! 7) \<and> \<not> is_Validate (?xs ! 7)" by blast
  moreover from sleep have "?xs ! 7 = Sleep 10" by simp
  ultimately show ?thesis using hyp out by blast
qed

text \<open>
  C7. Running the executor on any sequence: if the action at index \<open>k\<close> fails in the run
  (the log holds \<open>k\<close> with a failure), the outcome is Aborted at exactly index \<open>k\<close>, with
  the reason of that failure; the actions applied are those at the indices 0 to \<open>k\<close>, each
  once and in order, so no action at an index greater than \<open>k\<close> is applied.
\<close>

theorem executor_fail_fast:
  assumes "(k, Failure r) \<in> set (applied (execute apply_action actions x))"
  shows "status (execute apply_action actions x) = Aborted r k
       \<and> k < length actions
       \<and> map fst (applied (execute apply_action actions x)) = [0..<Suc k]
       \<and> (\<forall>j res. (j, res) \<in> set (applied (execute apply_action actions x)) \<longrightarrow> j \<le> k)"
proof -
  let ?e = "execute apply_action actions x"
  have inv: "run_inv actions (Suc (length actions)) ?e" by (rule run_inv_execute)
  from execute_final [of apply_action actions x]
  consider "status ?e = Completed" | r' k' where "status ?e = Aborted r' k'" by blast
  then show ?thesis
  proof cases
    case 1
    with inv have "applied ?e = successes (length actions)" by (simp add: run_inv_def)
    with assms Failure_notin_successes show ?thesis by metis
  next
    case 2
    with inv have k': "k' < length actions"
      and ap: "applied ?e = successes k' @ [(k', Failure r')]"
      by (simp_all add: run_inv_def)
    from assms ap have "k = k'" "r = r'" by (auto simp: Failure_notin_successes)
    with 2 k' ap have st: "status ?e = Aborted r k" "k < length actions"
      and ap': "applied ?e = successes k @ [(k, Failure r)]" by simp_all
    from ap' have idx: "map fst (applied ?e) = [0..<Suc k]" by (simp add: map_fst_successes)
    have "j \<le> k" if "(j, res) \<in> set (applied ?e)" for j res
    proof -
      from that have "j \<in> set (map fst (applied ?e))" by force
      with idx show ?thesis by auto
    qed
    with st idx show ?thesis by blast
  qed
qed

theorem executor_fail_fast_witness:
  "(8, Failure ''KillMz failed'')
     \<in> set (applied (execute kill_mz_fails (fst (UpgradeComputedFirst_actions example_state)) []))
   \<and> status (execute kill_mz_fails (fst (UpgradeComputedFirst_actions example_state)) [])
       = Aborted ''KillMz failed'' 8
   \<and> map fst (applied (execute kill_mz_fails (fst (UpgradeComputedFirst_actions example_state)) []))
       = [0, 1, 2, 3, 4, 5, 6, 7, 8]
   \<and> length (ctx (execute kill_mz_fails (fst (UpgradeComputedFirst_actions example_state)) [])) = 9
   \<and> hd (ctx (execute kill_mz_fails (fst (UpgradeComputedFirst_actions example_state)) [])) = KillMz"
proof -
  let ?e = "execute kill_mz_fails (fst (UpgradeComputedFirst_actions example_state)) []"
  have run: "?e = \<lparr>status = Aborted ''KillMz failed'' 8,
      ctx = rev (take 9 (fst (UpgradeComputedFirst_actions example_state))),
      applied = successes 8 @ [(8, Failure ''KillMz failed'')]\<rparr>"
    by (simp add: execute_def step_def kill_mz_fails_def UpgradeComputedFirst_actions_def
          successes_def eval_nat_numeral upt_rec [of _ "Suc _"] upt_rec [of 0])
  then have hyp: "(8, Failure ''KillMz failed'') \<in> set (applied ?e)" by simp
  from executor_fail_fast [OF hyp]
  have "status ?e = Aborted ''KillMz failed'' 8 \<and> map fst (applied ?e) = [0..<Suc 8]" by blast
  moreover have "[0..<Suc 8] = [0, 1, 2, 3, 4, 5, 6, 7, 8::nat]"
    by (simp add: eval_nat_numeral upt_rec [of _ "Suc _"] upt_rec [of 0])
  moreover from run have "length (ctx ?e) = 9 \<and> hd (ctx ?e) = KillMz"
    by (simp add: UpgradeComputedFirst_actions_def)
  ultimately show ?thesis using hyp by simp
qed

text \<open>
  C9. In each of the three scenarios the tags a component is started with are monotone in
  the order released below under test, so they never go back from the version under test
  to a released one: the first start of a component carries \<^verbatim>\<open>LAST_RELEASED_VERSION\<close>, every
  later start of it carries \<^verbatim>\<open>None\<close>. The coordinators are started twice in every scenario
  (released, then under test), and so is the worker wherever it is started at all
  (Whole-cluster-at-once never starts it on its own).
\<close>

theorem start_tags_monotone:
  assumes "xs = fst (UpgradeEntireMz_actions s) \<or> xs = fst (UpgradeComputedLast_actions s)
         \<or> xs = fst (UpgradeComputedFirst_actions s)"
  shows "start_tags Mz xs = [Some (LAST_RELEASED_VERSION (globals s)), None]
       \<and> (start_tags c xs = [] \<or> start_tags c xs = [Some (LAST_RELEASED_VERSION (globals s)), None])
       \<and> (start_tags c xs \<noteq> [] \<longrightarrow> hd (start_tags c xs) = Some (LAST_RELEASED_VERSION (globals s)))
       \<and> (\<forall>t \<in> set (tl (start_tags c xs)). t = None)
       \<and> (\<forall>i j. i < j \<and> j < length (start_tags c xs)
              \<longrightarrow> version_rank (start_tags c xs ! i) \<le> version_rank (start_tags c xs ! j))"
proof -
  have mz: "start_tags Mz xs = [Some (LAST_RELEASED_VERSION (globals s)), None]"
    using assms start_tags_scenarios [where s = s] by auto
  have shape: "start_tags c xs = []
      \<or> start_tags c xs = [Some (LAST_RELEASED_VERSION (globals s)), None]"
    using assms start_tags_scenarios [where s = s] by (cases c) auto
  have mono: "version_rank (start_tags c xs ! i) \<le> version_rank (start_tags c xs ! j)"
    if "i < j \<and> j < length (start_tags c xs)" for i j
  proof -
    from that shape have eq: "start_tags c xs = [Some (LAST_RELEASED_VERSION (globals s)), None]"
      by auto
    with that have "i = 0 \<and> j = 1" by auto
    with eq show ?thesis by simp
  qed
  from mz shape mono show ?thesis by auto
qed

theorem start_tags_monotone_witness:
  "start_tags Mz (fst (UpgradeComputedLast_actions example_state)) = [Some ''v0.27.0'', None]
   \<and> start_tags Computed (fst (UpgradeComputedLast_actions example_state)) \<noteq> []
   \<and> hd (start_tags Computed (fst (UpgradeComputedLast_actions example_state))) = Some ''v0.27.0''
   \<and> tl (start_tags Computed (fst (UpgradeComputedLast_actions example_state))) = [None]
   \<and> (0::nat) < 1 \<and> 1 < length (start_tags Computed (fst (UpgradeComputedLast_actions example_state)))
   \<and> version_rank (start_tags Computed (fst (UpgradeComputedLast_actions example_state)) ! 0)
       \<le> version_rank (start_tags Computed (fst (UpgradeComputedLast_actions example_state)) ! 1)"
proof -
  let ?xs = "fst (UpgradeComputedLast_actions example_state)"
  have ne: "start_tags Computed ?xs \<noteq> []" and tl: "tl (start_tags Computed ?xs) = [None]"
    and two: "(0::nat) < 1 \<and> 1 < length (start_tags Computed ?xs)"
    by (simp_all add: UpgradeComputedLast_actions_def)
  have "?xs = fst (UpgradeEntireMz_actions example_state)
      \<or> ?xs = fst (UpgradeComputedLast_actions example_state)
      \<or> ?xs = fst (UpgradeComputedFirst_actions example_state)"
    by simp
  from start_tags_monotone [OF this, of Computed]
  have mz: "start_tags Mz ?xs = [Some (LAST_RELEASED_VERSION (globals example_state)), None]"
    and first: "start_tags Computed ?xs \<noteq> []
      \<longrightarrow> hd (start_tags Computed ?xs) = Some (LAST_RELEASED_VERSION (globals example_state))"
    and mono: "\<forall>i j. i < j \<and> j < length (start_tags Computed ?xs)
      \<longrightarrow> version_rank (start_tags Computed ?xs ! i) \<le> version_rank (start_tags Computed ?xs ! j)"
    by blast+
  from mono two
  have "version_rank (start_tags Computed ?xs ! 0) \<le> version_rank (start_tags Computed ?xs ! 1)"
    by blast
  with mz first ne tl two show ?thesis by (simp add: example_state_def example_globals_def)
qed

text \<open>
  C10. In each of the three scenarios exactly one action is built with environment
  overrides: the first, the start of the coordinators at \<^verbatim>\<open>LAST_RELEASED_VERSION\<close>, which
  gets the module's \<^verbatim>\<open>environment_extra\<close>. Every start with tag \<^verbatim>\<open>None\<close> and every start
  of the worker is built without them.
\<close>

theorem environment_extra_only_first_start:
  assumes "xs = fst (UpgradeEntireMz_actions s) \<or> xs = fst (UpgradeComputedLast_actions s)
         \<or> xs = fst (UpgradeComputedFirst_actions s)"
  shows "positions (\<lambda>a. env_overrides a \<noteq> None) xs = [0]
       \<and> xs ! 0 = StartMz (Some (LAST_RELEASED_VERSION (globals s))) (Some (environment_extra (globals s)))
       \<and> (\<forall>i. i < length xs \<and> env_overrides (xs ! i) \<noteq> None \<longrightarrow> i = 0)
       \<and> (\<forall>a c tag. a \<in> set xs \<and> started a = Some (c, tag) \<and> (tag = None \<or> c = Computed)
             \<longrightarrow> env_overrides a = None)"
proof -
  have pos: "positions (\<lambda>a. env_overrides a \<noteq> None) xs = [0]"
    using assms by (auto simp: scenario_defs positions_def)
  have first: "xs ! 0 = StartMz (Some (LAST_RELEASED_VERSION (globals s))) (Some (environment_extra (globals s)))"
    using assms by (auto simp: scenario_defs)
  have only: "i < length xs \<and> env_overrides (xs ! i) \<noteq> None \<longrightarrow> i = 0" for i
    using in_positions [of i "\<lambda>a. env_overrides a \<noteq> None" xs] pos by simp
  have others: "a \<in> set xs \<and> started a = Some (c, tag) \<and> (tag = None \<or> c = Computed)
             \<longrightarrow> env_overrides a = None" for a c tag
    using assms by (auto simp: scenario_defs)
  from pos first only others show ?thesis by blast
qed

theorem environment_extra_only_first_start_witness:
  "StartMz None None \<in> set (fst (UpgradeEntireMz_actions example_state))
   \<and> started (StartMz None None :: string list Action) = Some (Mz, None)
   \<and> env_overrides (StartMz None None :: string list Action) = None
   \<and> env_overrides (fst (UpgradeEntireMz_actions example_state) ! 0)
       = Some (environment_extra example_globals)
   \<and> positions (\<lambda>a. env_overrides a \<noteq> None) (fst (UpgradeEntireMz_actions example_state)) = [0]"
proof -
  let ?xs = "fst (UpgradeEntireMz_actions example_state)"
  have hyp: "StartMz None None \<in> set ?xs
      \<and> started (StartMz None None :: string list Action) = Some (Mz, None)"
    by (simp add: UpgradeEntireMz_actions_def)
  have "?xs = fst (UpgradeEntireMz_actions example_state)
      \<or> ?xs = fst (UpgradeComputedLast_actions example_state)
      \<or> ?xs = fst (UpgradeComputedFirst_actions example_state)"
    by simp
  from environment_extra_only_first_start [OF this]
  have pos: "positions (\<lambda>a. env_overrides a \<noteq> None) ?xs = [0]"
    and first: "?xs ! 0 = StartMz (Some (LAST_RELEASED_VERSION (globals example_state)))
        (Some (environment_extra (globals example_state)))"
    and others: "\<forall>a c tag. a \<in> set ?xs \<and> started a = Some (c, tag) \<and> (tag = None \<or> c = Computed)
             \<longrightarrow> env_overrides a = None"
    by blast+
  from others hyp have "env_overrides (StartMz None None :: string list Action) = None" by blast
  with hyp pos first show ?thesis by (simp add: example_state_def)
qed

end
